theory Spec2Isabelle
  imports Complex_Main "HOL-Library.Word"
begin

section \<open>Data model\<close>

text \<open>
  The particle list of \<^verbatim>\<open>larsim/MCSTReco/MCRecoPart.cxx\<close>: a vector of reduced particle
  records together with a map from track id to position, a set of PDG codes whose
  trajectory is kept, and the six bounds of the fiducial box.

  C++ \<^verbatim>\<open>unsigned int\<close> is a 32-bit word. A \<^verbatim>\<open>TLorentzVector\<close> is the tuple (x, y, z, t).
\<close>

type_synonym uint = "32 word"

text \<open>
  A C++ \<^verbatim>\<open>double\<close> is a number, one of the two infinities, or NaN. The comparisons are
  those of the language: any comparison with NaN is false.
\<close>

datatype double = Fin real | PInf | MInf | NaN

fun dless :: "double \<Rightarrow> double \<Rightarrow> bool" where
  "dless NaN b = False"
| "dless a NaN = False"
| "dless (Fin a) (Fin b) = (a < b)"
| "dless (Fin a) PInf = True"
| "dless (Fin a) MInf = False"
| "dless PInf b = False"
| "dless MInf MInf = False"
| "dless MInf b = True"

definition dgreater :: "double \<Rightarrow> double \<Rightarrow> bool" where
  "dgreater a b = dless b a"


text \<open>
  The product of two doubles, as far as it is used (a momentum times 1000): rounding and
  overflow of the product of two numbers are not modelled, and no statement below depends
  on the product.
\<close>

definition dtimes :: "double \<Rightarrow> double \<Rightarrow> double" where
  "dtimes a b =
     (case (a, b) of
        (Fin x, Fin y) \<Rightarrow> Fin (x * y)
      | _ \<Rightarrow>
          if a = NaN \<or> b = NaN \<or> a = Fin 0 \<or> b = Fin 0 then NaN
          else if dless (Fin 0) a = dless (Fin 0) b then PInf else MInf)"

type_synonym TLorentzVector = "double \<times> double \<times> double \<times> double"

text \<open>
  Modelled from the spec: the constant \<^verbatim>\<open>kINVALID_UINT\<close> is declared outside the sources
  at hand; the spec calls it the sentinel INVALID (and UNSET for the ancestor cache). It is
  taken to be the largest unsigned value.
\<close>

definition kINVALID_UINT :: uint where
  "kINVALID_UINT = - 1"

text \<open>The provenance tag \<^verbatim>\<open>simb::Origin_t\<close> of the input batch.\<close>

datatype Origin_t = kUnknown | kBeamNeutrino | kCosmicRay | kSuperNovaNeutrino | kSingleParticle

text \<open>
  Modelled from the spec: the record class \<^verbatim>\<open>MCMiniPart\<close> is declared in the header
  \<^verbatim>\<open>MCRecoPart.h\<close>, which is not among the sources. Its fields follow the spec's
  ParticleRecord (trackId, motherId, ancestorId, pdgCode, daughterIds, process, the four
  4-vectors, origin, detectorPath) and the setters called by \<^verbatim>\<open>AddParticles\<close>.
\<close>

record MCMiniPart =
  track_id :: uint
  mother :: uint
  ancestor :: uint
  pdgcode :: int
  process :: string
  origin :: Origin_t
  daughters :: "uint set"
  start_vtx :: TLorentzVector
  start_mom :: TLorentzVector
  end_vtx :: TLorentzVector
  end_mom :: TLorentzVector
  det_path :: "(TLorentzVector \<times> TLorentzVector) list"

text \<open>
  Modelled from the spec: the default-constructed record \<^verbatim>\<open>MCMiniPart()\<close>. The ancestor
  cache is UNSET and no detector path is stored; every other field is overwritten by
  \<^verbatim>\<open>AddParticles\<close> before the record is used.
\<close>

definition MCMiniPart_default :: MCMiniPart where
  "MCMiniPart_default =
     \<lparr> track_id = kINVALID_UINT, mother = kINVALID_UINT, ancestor = kINVALID_UINT,
       pdgcode = 0, process = [], origin = kUnknown, daughters = {},
       start_vtx = (Fin 0, Fin 0, Fin 0, Fin 0), start_mom = (Fin 0, Fin 0, Fin 0, Fin 0),
       end_vtx = (Fin 0, Fin 0, Fin 0, Fin 0), end_mom = (Fin 0, Fin 0, Fin 0, Fin 0),
       det_path = [] \<rparr>"

text \<open>Modelled from the spec: \<^verbatim>\<open>HasDaughter\<close> tests membership in the daughter set.\<close>

definition HasDaughter :: "MCMiniPart \<Rightarrow> uint \<Rightarrow> bool" where
  "HasDaughter p d = (d \<in> daughters p)"

text \<open>
  The input particle \<^verbatim>\<open>simb::MCParticle\<close> (an external class): the values its accessors
  return. \<^verbatim>\<open>Trajectory\<close> holds the pairs (Position(i), Momentum(i)); \<^verbatim>\<open>Position()\<close> is
  the first point and \<^verbatim>\<open>EndPosition()\<close> the last. For a particle without trajectory points
  these accessors are undefined in the external class, and their values are left
  unspecified here; nothing below depends on them.
\<close>

record MCParticle =
  TrackId :: int
  PdgCode :: int
  Mother :: int
  Process :: string
  Daughters :: "int list"
  Trajectory :: "(TLorentzVector \<times> TLorentzVector) list"

definition NumberTrajectoryPoints :: "MCParticle \<Rightarrow> nat" where
  "NumberTrajectoryPoints mcp = length (Trajectory mcp)"

definition Position :: "MCParticle \<Rightarrow> nat \<Rightarrow> TLorentzVector" where
  "Position mcp i = fst (Trajectory mcp ! i)"

definition Momentum :: "MCParticle \<Rightarrow> nat \<Rightarrow> TLorentzVector" where
  "Momentum mcp i = snd (Trajectory mcp ! i)"

definition EndPosition :: "MCParticle \<Rightarrow> TLorentzVector" where
  "EndPosition mcp = Position mcp (NumberTrajectoryPoints mcp - 1)"

definition EndMomentum :: "MCParticle \<Rightarrow> TLorentzVector" where
  "EndMomentum mcp = Momentum mcp (NumberTrajectoryPoints mcp - 1)"

definition Vx :: "MCParticle \<Rightarrow> nat \<Rightarrow> double" where
  "Vx mcp i = (case Position mcp i of (x, y, z, t) \<Rightarrow> x)"

definition Vy :: "MCParticle \<Rightarrow> nat \<Rightarrow> double" where
  "Vy mcp i = (case Position mcp i of (x, y, z, t) \<Rightarrow> y)"

definition Vz :: "MCParticle \<Rightarrow> nat \<Rightarrow> double" where
  "Vz mcp i = (case Position mcp i of (x, y, z, t) \<Rightarrow> z)"

text \<open>The cast \<^verbatim>\<open>(unsigned int)\<close> of a C++ \<^verbatim>\<open>int\<close>: reduction modulo \<open>2 ^ 32\<close>.\<close>

definition to_uint :: "int \<Rightarrow> uint" where
  "to_uint i = word_of_int i"

text \<open>
  The particle list. \<^verbatim>\<open>MCRecoPart\<close> derives from \<^verbatim>\<open>std::vector<MCMiniPart>\<close>; the field
  \<open>parts\<close> is that vector.

  Modelled from the spec: the members \<^verbatim>\<open>_track_index\<close>, \<^verbatim>\<open>_pdg_list\<close> and the six bounds are
  declared in the missing header. The index is the spec's LineageIndex, a map from track id
  to position; its positions are unsigned integers, as \<^verbatim>\<open>TrackToParticleIndex\<close> hands them
  to \<^verbatim>\<open>MotherTrackID\<close>, so a position is stored modulo \<open>2 ^ 32\<close>.
\<close>

record MCRecoPart =
  parts :: "MCMiniPart list"
  track_index :: "uint \<rightharpoonup> uint"
  pdg_list :: "int set"
  x_min :: double
  x_max :: double
  y_min :: double
  y_max :: double
  z_min :: double
  z_max :: double

datatype error = out_of_range | cet_exception

section \<open>Queries\<close>

text \<open>
  Modelled from the spec: \<^verbatim>\<open>TrackToParticleIndex\<close> (defined in the missing header) looks the
  track id up in the index and answers the sentinel when it is not there.
\<close>

definition TrackToParticleIndex :: "MCRecoPart \<Rightarrow> uint \<Rightarrow> uint" where
  "TrackToParticleIndex s t = (case track_index s t of None \<Rightarrow> kINVALID_UINT | Some i \<Rightarrow> i)"

text \<open>The record at a position, \<^verbatim>\<open>this->at(i)\<close>, read only where \<open>i\<close> is in range.\<close>

definition part_at :: "MCRecoPart \<Rightarrow> uint \<Rightarrow> MCMiniPart" where
  "part_at s i = parts s ! unat i"

text \<open>The brute search: the track id of the first record that lists \<open>d\<close> as a daughter.\<close>

definition brute_search :: "MCRecoPart \<Rightarrow> uint \<Rightarrow> uint \<Rightarrow> uint" where
  "brute_search s d result =
     (case find (\<lambda>part. HasDaughter part d) (parts s) of
        Some part \<Rightarrow> track_id part
      | None \<Rightarrow> result)"

definition MotherTrackID :: "MCRecoPart \<Rightarrow> uint \<Rightarrow> uint" where
  "MotherTrackID s part_index =
     (if length (parts s) \<le> unat part_index then kINVALID_UINT
      else
        let result = mother (part_at s part_index) in
        if result = 0 then track_id (part_at s part_index)
        else if TrackToParticleIndex s result \<noteq> kINVALID_UINT then result
        else
          let daughter_id = track_id (part_at s part_index)
          in brute_search s daughter_id result)"

text \<open>
  One pass through the body of the \<^verbatim>\<open>while(1)\<close> loop of \<^verbatim>\<open>AncestorTrackID\<close>, from the
  loop variables \<open>result\<close> and \<open>mother_index\<close>: the loop is left by \<^verbatim>\<open>break\<close>, goes
  round again with new values, or \<^verbatim>\<open>this->at(mother_index)\<close> throws.
\<close>

datatype loop_ctl = Break uint | Continue uint uint | Raise error

definition ancestor_step :: "MCRecoPart \<Rightarrow> uint \<Rightarrow> uint \<Rightarrow> loop_ctl" where
  "ancestor_step s result mother_index =
     (if mother_index \<noteq> kINVALID_UINT then
        let new_result = MotherTrackID s mother_index in
        if length (parts s) \<le> unat mother_index then Raise out_of_range
        else if new_result = track_id (part_at s mother_index) then Break result
        else Continue new_result (TrackToParticleIndex s new_result)
      else
        let old_result = result;
            result = brute_search s result result
        in if result = old_result then Break result
           else Continue result (TrackToParticleIndex s result))"

text \<open>The loop itself; it need not end, and then the value is \<open>None\<close>.\<close>

partial_function (option) ancestor_loop ::
    "MCRecoPart \<Rightarrow> uint \<Rightarrow> uint \<Rightarrow> (error + uint) option" where
  "ancestor_loop s result mother_index =
     (case ancestor_step s result mother_index of
        Break r \<Rightarrow> Some (Inr r)
      | Raise e \<Rightarrow> Some (Inl e)
      | Continue r m \<Rightarrow> ancestor_loop s r m)"

text \<open>The same loop cut off after \<open>n\<close> passes through its body, to count iterations.\<close>

fun ancestor_loop_upto ::
    "nat \<Rightarrow> MCRecoPart \<Rightarrow> uint \<Rightarrow> uint \<Rightarrow> (error + uint) option" where
  "ancestor_loop_upto 0 s result mother_index = None"
| "ancestor_loop_upto (Suc n) s result mother_index =
     (case ancestor_step s result mother_index of
        Break r \<Rightarrow> Some (Inr r)
      | Raise e \<Rightarrow> Some (Inl e)
      | Continue r m \<Rightarrow> ancestor_loop_upto n s r m)"

text \<open>The write \<^verbatim>\<open>(*this)[part_index].Ancestor(result)\<close>.\<close>

definition set_Ancestor :: "MCRecoPart \<Rightarrow> uint \<Rightarrow> uint \<Rightarrow> MCRecoPart" where
  "set_Ancestor s part_index result =
     s\<lparr>parts := (parts s)[unat part_index := (part_at s part_index)\<lparr>ancestor := result\<rparr>]\<rparr>"

text \<open>
  \<^verbatim>\<open>AncestorTrackID\<close> returns a track id or throws, and leaves a state behind; \<open>None\<close>
  stands for a call that never returns.
\<close>

definition AncestorTrackID ::
    "MCRecoPart \<Rightarrow> uint \<Rightarrow> ((error + uint) \<times> MCRecoPart) option" where
  "AncestorTrackID s part_index =
     (if unat part_index \<ge> length (parts s) then Some (Inr kINVALID_UINT, s)
      else if ancestor (part_at s part_index) \<noteq> kINVALID_UINT
        then Some (Inr (ancestor (part_at s part_index)), s)
      else
        let result = MotherTrackID s part_index in
        if result = track_id (part_at s part_index) then Some (Inr result, s)
        else if result = 0 then Some (Inr (track_id (part_at s part_index)), s)
        else
          (case ancestor_loop s result (TrackToParticleIndex s result) of
             None \<Rightarrow> None
           | Some (Inl e) \<Rightarrow> Some (Inl e, s)
           | Some (Inr r) \<Rightarrow> Some (Inr r, set_Ancestor s part_index r)))"

text \<open>
  \<^verbatim>\<open>MotherTrackID\<close> is a \<^verbatim>\<open>const\<close> member function whose body only reads: as a call on
  the object it returns its value and the object as it was.
\<close>

definition MotherTrackID_call :: "MCRecoPart \<Rightarrow> uint \<Rightarrow> uint \<times> MCRecoPart" where
  "MotherTrackID_call s part_index = (MotherTrackID s part_index, s)"

definition InDetector :: "MCRecoPart \<Rightarrow> double \<Rightarrow> double \<Rightarrow> double \<Rightarrow> bool" where
  "InDetector s x y z =
     (\<not> (dgreater x (x_max s) \<or> dless x (x_min s) \<or>
         dgreater z (z_max s) \<or> dless z (z_min s) \<or>
         dgreater y (y_max s) \<or> dless y (y_min s)))"

section \<open>Ingestion\<close>

text \<open>
  \<^verbatim>\<open>std::map::insert\<close> and \<^verbatim>\<open>try_emplace\<close>: the pair is stored only when the key is new.
\<close>

definition map_insert :: "('k \<rightharpoonup> 'v) \<Rightarrow> 'k \<Rightarrow> 'v \<Rightarrow> ('k \<rightharpoonup> 'v)" where
  "map_insert m k v = (case m k of None \<Rightarrow> m(k \<mapsto> v) | Some _ \<Rightarrow> m)"

text \<open>
  The \<^verbatim>\<open>std::set<size_t>\<close> of path indices is kept as its ascending list of elements:
  \<open>set_insert\<close> adds an element unless it is there, \<^verbatim>\<open>*begin()\<close> is \<open>hd\<close> and
  \<^verbatim>\<open>*rbegin()\<close> is \<open>last\<close>.
\<close>

fun set_insert :: "nat \<Rightarrow> nat list \<Rightarrow> nat list" where
  "set_insert x [] = [x]"
| "set_insert x (y # ys) =
     (if x < y then x # y # ys else if x = y then y # ys else y # set_insert x ys)"

definition scale_vec :: "double \<Rightarrow> TLorentzVector \<Rightarrow> TLorentzVector" where
  "scale_vec k v = (case v of (a, b, c, d) \<Rightarrow> (dtimes a k, dtimes b k, dtimes c k, dtimes d k))"

text \<open>Lines 171 to 177: the indices of the trajectory points inside the box.\<close>

definition inside_index :: "MCRecoPart \<Rightarrow> MCParticle \<Rightarrow> nat list" where
  "inside_index s mcp =
     fold (\<lambda>i S. if InDetector s (Vx mcp i) (Vy mcp i) (Vz mcp i) then set_insert i S else S)
       [0 ..< NumberTrajectoryPoints mcp] []"

text \<open>Lines 180 to 185: the padding of a non-empty index set.\<close>

definition pad_index :: "nat \<Rightarrow> nat list \<Rightarrow> nat list" where
  "pad_index n S =
     (let S1 = (if hd S \<noteq> 0 then set_insert (hd S - 1) S else S)
      in if length S1 > 1
         then (if last S1 + 1 < n then set_insert (last S1 + 1) S1 else S1)
         else S1)"

text \<open>
  The index set from which the detector path is built, \<open>None\<close> when no point is inside
  and \<^verbatim>\<open>DetPath\<close> is not called.
\<close>

definition det_path_index :: "MCRecoPart \<Rightarrow> MCParticle \<Rightarrow> nat list option" where
  "det_path_index s mcp =
     (let S = inside_index s mcp
      in if length S \<noteq> 0 then Some (pad_index (NumberTrajectoryPoints mcp) S) else None)"

definition make_det_path ::
    "MCParticle \<Rightarrow> nat list \<Rightarrow> (TLorentzVector \<times> TLorentzVector) list" where
  "make_det_path mcp S = map (\<lambda>index. (Position mcp index, scale_vec (Fin 1000) (Momentum mcp index))) S"

text \<open>
  The record built from one input particle, lines 146 to 198. The setters store their
  argument; \<^verbatim>\<open>ScaleStartMom\<close> and \<^verbatim>\<open>ScaleEndMom\<close> multiply the four components of the
  momentum (modelled from the spec: momenta are scaled by 1000 on ingestion).
\<close>

definition make_mini :: "MCRecoPart \<Rightarrow> MCParticle \<Rightarrow> Origin_t \<Rightarrow> MCMiniPart" where
  "make_mini s mcp orig =
     (let mini_mcp = MCMiniPart_default
            \<lparr> daughters := fold (\<lambda>d D. insert (to_uint d) D) (Daughters mcp) {},
              track_id := to_uint (TrackId mcp),
              pdgcode := PdgCode mcp,
              mother := to_uint (Mother mcp),
              process := Process mcp,
              start_vtx := Position mcp 0,
              start_mom := scale_vec (Fin 1000) (Momentum mcp 0),
              end_vtx := EndPosition mcp,
              end_mom := scale_vec (Fin 1000) (EndMomentum mcp),
              origin := orig \<rparr>
      in if PdgCode mcp \<in> pdg_list s
         then (case det_path_index s mcp of
                 Some S \<Rightarrow> mini_mcp\<lparr>det_path := make_det_path mcp S\<rparr>
               | None \<Rightarrow> mini_mcp)
         else mini_mcp)"

text \<open>One pass of the loop over the particle batch: index the track id, append the record.\<close>

definition add_particle :: "MCParticle \<times> Origin_t \<Rightarrow> MCRecoPart \<Rightarrow> MCRecoPart" where
  "add_particle po s =
     (case po of (mcp, orig) \<Rightarrow>
        s\<lparr> track_index := map_insert (track_index s) (to_uint (TrackId mcp)) (of_nat (length (parts s))),
           parts := parts s @ [make_mini s mcp orig] \<rparr>)"

text \<open>One pass of the loop over the dropped particles, lines 202 to 208.\<close>

definition add_dropped :: "MCMiniPart \<Rightarrow> MCRecoPart \<Rightarrow> MCRecoPart" where
  "add_dropped mcmp s =
     s\<lparr> track_index := map_insert (track_index s) (track_id mcmp) (of_nat (length (parts s))),
        parts := parts s @ [mcmp] \<rparr>"

text \<open>
  \<^verbatim>\<open>AddParticles\<close>: the exception of line 133, or the rebuilt list. The two batches are
  walked together by position, which is \<open>zip\<close> once their lengths agree.
\<close>

definition AddParticles ::
    "MCRecoPart \<Rightarrow> MCParticle list \<Rightarrow> Origin_t list \<Rightarrow> MCMiniPart list
       \<Rightarrow> (error + unit) \<times> MCRecoPart" where
  "AddParticles s mcp_v orig_v mcmp_v =
     (if length orig_v \<noteq> length mcp_v then (Inl cet_exception, s)
      else
        let s1 = s\<lparr>parts := [], track_index := Map.empty\<rparr>;
            s2 = fold add_particle (zip mcp_v orig_v) s1;
            s3 = fold add_dropped mcmp_v s2
        in (Inr (), s3))"

text \<open>
  The notions the path claim speaks of: the indices of the trajectory points inside the
  box, in ascending order; and such a list \<open>I\<close> padded with the index before its first
  element, unless that element is 0, and with the index after its last element, when that
  index is below \<open>n\<close> and \<open>I\<close> is not just the point 0.
\<close>

definition points_inside :: "MCRecoPart \<Rightarrow> MCParticle \<Rightarrow> nat list" where
  "points_inside s mcp =
     filter (\<lambda>i. InDetector s (Vx mcp i) (Vy mcp i) (Vz mcp i)) [0 ..< NumberTrajectoryPoints mcp]"

definition padded :: "nat \<Rightarrow> nat list \<Rightarrow> nat list" where
  "padded n I =
     (if hd I \<noteq> 0 then [hd I - 1] else []) @ I @
     (if (hd I \<noteq> 0 \<or> length I > 1) \<and> last I + 1 < n then [last I + 1] else [])"

text \<open>
  The position of the first occurrence of \<open>t\<close> in a list, and the state of an index that
  maps every track id of the list to the position of its first record and nothing else.
\<close>

definition first_pos :: "'a \<Rightarrow> 'a list \<Rightarrow> nat" where
  "first_pos t ids = length (takeWhile (\<lambda>x. x \<noteq> t) ids)"

definition index_first :: "MCRecoPart \<Rightarrow> bool" where
  "index_first s \<longleftrightarrow>
     (\<forall>t. track_index s t =
        (if t \<in> set (map track_id (parts s))
         then Some (of_nat (first_pos t (map track_id (parts s)))) else None))"

text \<open>
  The two loops of \<^verbatim>\<open>AddParticles\<close> do the same to the list: append a record, and index
  its track id unless it is indexed already.
\<close>

definition push_record :: "MCMiniPart \<Rightarrow> MCRecoPart \<Rightarrow> MCRecoPart" where
  "push_record r s =
     s\<lparr> track_index := map_insert (track_index s) (track_id r) (of_nat (length (parts s))),
        parts := parts s @ [r] \<rparr>"

section \<open>Lineage chains\<close>

text \<open>
  A position is indexed when the index leads from the track id of its record back to it.
  A link joins a record to the record of its mother. A lineage is a list of positions,
  the youngest first, each linked to the next.
\<close>

definition indexed :: "MCRecoPart \<Rightarrow> uint \<Rightarrow> bool" where
  "indexed s p \<longleftrightarrow>
     p \<noteq> kINVALID_UINT \<and> unat p < length (parts s) \<and>
     TrackToParticleIndex s (track_id (part_at s p)) = p"

definition primary :: "MCRecoPart \<Rightarrow> uint \<Rightarrow> bool" where
  "primary s p \<longleftrightarrow> unat p < length (parts s) \<and> mother (part_at s p) = 0"

definition link :: "MCRecoPart \<Rightarrow> uint \<Rightarrow> uint \<Rightarrow> bool" where
  "link s c m \<longleftrightarrow>
     unat c < length (parts s) \<and> indexed s m \<and>
     mother (part_at s c) = track_id (part_at s m) \<and>
     track_id (part_at s m) \<noteq> 0 \<and>
     track_id (part_at s m) \<noteq> track_id (part_at s c)"

fun lineage :: "MCRecoPart \<Rightarrow> uint list \<Rightarrow> bool" where
  "lineage s (c # m # ps) = (link s c m \<and> lineage s (m # ps))"
| "lineage s ps = True"

text \<open>
  A gap: the record at \<open>c\<close> names the mother \<open>b\<close>, no record bears \<open>b\<close> in the index and
  none lists \<open>c\<close>'s track id as a daughter, while the record at \<open>x\<close> (and only records with
  its track id) lists \<open>b\<close> as a daughter.
\<close>

definition gap :: "MCRecoPart \<Rightarrow> uint \<Rightarrow> uint \<Rightarrow> uint \<Rightarrow> bool" where
  "gap s c b x \<longleftrightarrow>
     unat c < length (parts s) \<and> mother (part_at s c) = b \<and> b \<noteq> 0 \<and>
     b \<noteq> track_id (part_at s c) \<and>
     TrackToParticleIndex s b = kINVALID_UINT \<and>
     list_all (\<lambda>q. \<not> HasDaughter q (track_id (part_at s c))) (parts s) \<and>
     indexed s x \<and> HasDaughter (part_at s x) b \<and>
     list_all (\<lambda>q. HasDaughter q b \<longrightarrow> track_id q = track_id (part_at s x)) (parts s)"

section \<open>Example states\<close>

definition box10 :: MCRecoPart where
  "box10 = \<lparr> parts = [], track_index = Map.empty, pdg_list = {13},
             x_min = Fin 0, x_max = Fin 10, y_min = Fin 0, y_max = Fin 10,
             z_min = Fin 0, z_max = Fin 10 \<rparr>"

definition mini :: "uint \<Rightarrow> uint \<Rightarrow> uint list \<Rightarrow> MCMiniPart" where
  "mini t m ds = MCMiniPart_default\<lparr>track_id := t, mother := m, daughters := set ds\<rparr>"

text \<open>Five generations, track ids 1 to 5 at positions 0 to 4, each the mother of the next.\<close>

definition chain5 :: MCRecoPart where
  "chain5 = box10
     \<lparr> parts := [mini 1 0 [2], mini 2 1 [3], mini 3 2 [4], mini 4 3 [5], mini 5 4 []],
       track_index := [1 \<mapsto> 0, 2 \<mapsto> 1, 3 \<mapsto> 2, 4 \<mapsto> 3, 5 \<mapsto> 4] \<rparr>"

text \<open>
  The same lineage without the record of track 3, which track 2 still lists as a daughter;
  and a record of track 7 whose mother 6 is unknown but which track 4 lists as a daughter.
\<close>

definition broken :: MCRecoPart where
  "broken = box10
     \<lparr> parts := [mini 1 0 [2], mini 2 1 [3], mini 4 3 [5, 7], mini 5 4 [], mini 7 6 []],
       track_index := [1 \<mapsto> 0, 2 \<mapsto> 1, 4 \<mapsto> 2, 5 \<mapsto> 3, 7 \<mapsto> 4] \<rparr>"

text \<open>
  A muon (PDG code 13, a species of interest in \<open>box10\<close>) whose trajectory runs along
  the line y = z = 5 through the given x coordinates: a point is inside \<open>box10\<close> exactly
  when its x lies between 0 and 10.
\<close>

definition point :: "real \<Rightarrow> TLorentzVector \<times> TLorentzVector" where
  "point x = ((Fin x, Fin 5, Fin 5, Fin 0), (Fin 1, Fin 0, Fin 0, Fin 1))"

definition particle :: "int \<Rightarrow> int \<Rightarrow> real list \<Rightarrow> MCParticle" where
  "particle t m xs =
     \<lparr> TrackId = t, PdgCode = 13, Mother = m, Process = ''primary'', Daughters = [],
       Trajectory = map point xs \<rparr>"

text \<open>
  States built by \<open>AddParticles\<close> itself. \<open>ingested5\<close>: five generations, track ids 1 to
  5, all from the particle batch. \<open>cached5\<close>: the same lineage, the youngest record coming
  from the dropped-particle batch with its ancestor field already set to 42.
  \<open>ingested_broken\<close> and \<open>cached_broken\<close>: the same two ways of ingesting the lineage 1, 2,
  (3), 4, 5 in which track 3 has no record and track 2 lists it as a daughter.
\<close>

definition batch4 :: "MCParticle list" where
  "batch4 = [particle 1 0 [5], particle 2 1 [5], particle 3 2 [5], particle 4 3 [5]]"

definition origins4 :: "Origin_t list" where
  "origins4 = [kBeamNeutrino, kBeamNeutrino, kBeamNeutrino, kBeamNeutrino]"

definition ingested5 :: MCRecoPart where
  "ingested5 = snd (AddParticles box10 (batch4 @ [particle 5 4 [5]]) (origins4 @ [kBeamNeutrino]) [])"

definition cached5 :: MCRecoPart where
  "cached5 = snd (AddParticles box10 batch4 origins4 [(mini 5 4 [])\<lparr>ancestor := 42\<rparr>])"

definition broken_batch :: "MCParticle list" where
  "broken_batch = [particle 1 0 [5], (particle 2 1 [5])\<lparr>Daughters := [3]\<rparr>, particle 4 3 [5]]"

definition origins3 :: "Origin_t list" where
  "origins3 = [kBeamNeutrino, kBeamNeutrino, kBeamNeutrino]"

definition ingested_broken :: MCRecoPart where
  "ingested_broken =
     snd (AddParticles box10 (broken_batch @ [particle 5 4 [5]]) (origins3 @ [kBeamNeutrino]) [])"

definition cached_broken :: MCRecoPart where
  "cached_broken = snd (AddParticles box10 broken_batch origins3 [(mini 5 4 [])\<lparr>ancestor := 42\<rparr>])"

section \<open>The loop and its bounded form\<close>

lemmas example_defs = chain5_def broken_def box10_def mini_def MCMiniPart_default_def kINVALID_UINT_def

lemmas query_defs = MotherTrackID_def part_at_def TrackToParticleIndex_def brute_search_def
  HasDaughter_def ancestor_step_def

lemma loop_upto_imp_loop:
  "ancestor_loop_upto n s r m = Some y \<Longrightarrow> ancestor_loop s r m = Some y"
proof (induction n arbitrary: r m)
  case 0
  then show ?case by simp
next
  case (Suc n)
  then show ?case
    by (subst ancestor_loop.simps) (auto split: loop_ctl.splits)
qed

lemma loop_imp_loop_upto:
  assumes "ancestor_loop s r m = Some y"
  shows "\<exists>n. ancestor_loop_upto n s r m = Some y"
  using assms
proof (induction rule: ancestor_loop.raw_induct[rotated 1, consumes 1])
  case (1 f s r m y)
  show ?case
  proof (cases "ancestor_step s r m")
    case (Break x)
    with 1(2) have "ancestor_loop_upto (Suc 0) s r m = Some y" by simp
    then show ?thesis by blast
  next
    case (Continue r' m')
    with 1(2) have "f s r' m' = Some y" by simp
    then obtain n where "ancestor_loop_upto n s r' m' = Some y"
      using 1(1) by blast
    with Continue have "ancestor_loop_upto (Suc n) s r m = Some y" by simp
    then show ?thesis by blast
  next
    case (Raise e)
    with 1(2) have "ancestor_loop_upto (Suc 0) s r m = Some y" by simp
    then show ?thesis by blast
  qed
qed

lemma loop_upto_mono:
  "ancestor_loop_upto n s r m = Some y \<Longrightarrow> n \<le> k \<Longrightarrow> ancestor_loop_upto k s r m = Some y"
proof (induction n arbitrary: r m k)
  case 0
  then show ?case by simp
next
  case (Suc n)
  then obtain k' where k: "k = Suc k'" "n \<le> k'" by (cases k) auto
  show ?case
    using Suc.prems(1) Suc.IH[OF _ k(2)] unfolding k(1)
    by (auto split: loop_ctl.splits)
qed

lemma map_update_same: "(map f xs)[i := f (xs ! i)] = map f xs"
  by (simp flip: map_update)

lemma find_daughter_cong:
  assumes "map track_id xs = map track_id ys" "map daughters xs = map daughters ys"
  shows "map_option track_id (find (\<lambda>q. HasDaughter q d) xs)
       = map_option track_id (find (\<lambda>q. HasDaughter q d) ys)"
  using assms
proof (induction xs arbitrary: ys)
  case Nil
  then show ?case by simp
next
  case (Cons x xs)
  then obtain y ys' where "ys = y # ys'" by (cases ys) auto
  with Cons show ?case by (auto simp: HasDaughter_def)
qed

lemma length_set_Ancestor [simp]: "length (parts (set_Ancestor s p a)) = length (parts s)"
  by (simp add: set_Ancestor_def)

lemma track_index_set_Ancestor [simp]: "track_index (set_Ancestor s p a) = track_index s"
  by (simp add: set_Ancestor_def)

lemma TrackToParticleIndex_set_Ancestor [simp]:
  "TrackToParticleIndex (set_Ancestor s p a) t = TrackToParticleIndex s t"
  by (simp add: TrackToParticleIndex_def)

lemma part_at_set_Ancestor:
  "unat q < length (parts s) \<Longrightarrow>
   part_at (set_Ancestor s p a) q = (if q = p then (part_at s q)\<lparr>ancestor := a\<rparr> else part_at s q)"
  by (auto simp: set_Ancestor_def part_at_def word_unat_eq_iff)

lemma track_id_set_Ancestor [simp]:
  "unat q < length (parts s) \<Longrightarrow> track_id (part_at (set_Ancestor s p a) q) = track_id (part_at s q)"
  by (simp add: part_at_set_Ancestor)

lemma mother_set_Ancestor [simp]:
  "unat q < length (parts s) \<Longrightarrow> mother (part_at (set_Ancestor s p a) q) = mother (part_at s q)"
  by (simp add: part_at_set_Ancestor)

lemma brute_search_set_Ancestor [simp]:
  "brute_search (set_Ancestor s p a) d r = brute_search s d r"
proof -
  have "map_option track_id (find (\<lambda>q. HasDaughter q d) (parts (set_Ancestor s p a)))
      = map_option track_id (find (\<lambda>q. HasDaughter q d) (parts s))"
    by (rule find_daughter_cong) (simp_all add: set_Ancestor_def map_update part_at_def map_update_same)
  then show ?thesis
    by (auto simp: brute_search_def split: option.splits)
qed

lemma MotherTrackID_set_Ancestor [simp]:
  "MotherTrackID (set_Ancestor s p a) q = MotherTrackID s q"
  by (simp add: MotherTrackID_def Let_def)

lemma ancestor_step_set_Ancestor [simp]:
  "ancestor_step (set_Ancestor s p a) r m = ancestor_step s r m"
  by (simp add: ancestor_step_def Let_def)

lemma loop_upto_set_Ancestor [simp]:
  "ancestor_loop_upto n (set_Ancestor s p a) r m = ancestor_loop_upto n s r m"
  by (induction n arbitrary: r m) (auto split: loop_ctl.splits)

lemma loop_set_Ancestor [simp]:
  "ancestor_loop (set_Ancestor s p a) r m = ancestor_loop s r m"
proof (cases "ancestor_loop s r m")
  case None
  show ?thesis
  proof (cases "ancestor_loop (set_Ancestor s p a) r m")
    case None
    with \<open>ancestor_loop s r m = None\<close> show ?thesis by simp
  next
    case (Some y)
    then obtain n where "ancestor_loop_upto n (set_Ancestor s p a) r m = Some y"
      using loop_imp_loop_upto by blast
    then have "ancestor_loop s r m = Some y"
      using loop_upto_imp_loop by simp
    with None show ?thesis by simp
  qed
next
  case (Some y)
  then obtain n where "ancestor_loop_upto n s r m = Some y"
    using loop_imp_loop_upto by blast
  then have "ancestor_loop_upto n (set_Ancestor s p a) r m = Some y" by simp
  then have "ancestor_loop (set_Ancestor s p a) r m = Some y"
    by (rule loop_upto_imp_loop)
  with Some show ?thesis by simp
qed

lemma set_Ancestor_twice [simp]:
  "set_Ancestor (set_Ancestor s p a) p b = set_Ancestor s p b"
  by (cases "unat p < length (parts s)") (simp_all add: set_Ancestor_def part_at_def list_update_beyond)



lemma AncestorTrackID_frame:
  assumes "AncestorTrackID s p = Some (res, s')"
  shows "s' = s \<or> (unat p < length (parts s) \<and> ancestor (part_at s p) = kINVALID_UINT \<and>
           (\<exists>r. res = Inr r \<and> s' = set_Ancestor s p r))"
  using assms
  by (auto simp: AncestorTrackID_def Let_def split: if_splits option.splits sum.splits)

lemma set_Ancestor_same: "set_Ancestor s p (ancestor (part_at s p)) = s"
  by (simp add: set_Ancestor_def part_at_def)

lemma ancestor_loop_upto_numeral:
  "ancestor_loop_upto (numeral k) s r m =
     (case ancestor_step s r m of
        Break r \<Rightarrow> Some (Inr r)
      | Raise e \<Rightarrow> Some (Inl e)
      | Continue r m \<Rightarrow> ancestor_loop_upto (pred_numeral k) s r m)"
  by (simp add: numeral_eq_Suc)

lemma ancestor_loop_upto_1:
  "ancestor_loop_upto 1 s r m =
     (case ancestor_step s r m of
        Break r \<Rightarrow> Some (Inr r)
      | Raise e \<Rightarrow> Some (Inl e)
      | Continue r m \<Rightarrow> None)"
  by (simp split: loop_ctl.splits)

lemmas loop_eval = ancestor_loop_upto_numeral ancestor_loop_upto_1

lemma AncestorTrackID_chain5:
  "AncestorTrackID chain5 4 = Some (Inr 1, set_Ancestor chain5 4 1)"
proof -
  have "ancestor_loop_upto 4 chain5 4 3 = Some (Inr 1)"
    by (simp add: loop_eval query_defs example_defs)
  then have "ancestor_loop chain5 4 3 = Some (Inr 1)"
    by (rule loop_upto_imp_loop)
  moreover have "MotherTrackID chain5 4 = 4" "TrackToParticleIndex chain5 4 = 3"
    by (simp_all add: query_defs example_defs)
  ultimately show ?thesis
    by (simp add: AncestorTrackID_def) (simp add: example_defs part_at_def)
qed

section \<open>The fiducial box\<close>

lemma dless_NaN_right [simp]: "dless a NaN = False"
  by (cases a) simp_all





section \<open>The mother of a particle\<close>

text \<open>
  C4. \<open>MotherTrackID\<close> answers the sentinel for a position out of range. Otherwise, with
  \<open>m\<close> the mother id of the record: the record's own track id when \<open>m\<close> is 0; \<open>m\<close>
  when the index resolves \<open>m\<close>; otherwise the track id of a record that lists this
  particle's track id as a daughter when there is one, and \<open>m\<close> itself when there is none.
\<close>

theorem MotherTrackID_cases:
  "(length (parts s) \<le> unat p \<longrightarrow> MotherTrackID s p = kINVALID_UINT) \<and>
   (unat p < length (parts s) \<longrightarrow>
      (let r = parts s ! unat p; m = mother r in
        (m = 0 \<longrightarrow> MotherTrackID s p = track_id r) \<and>
        (m \<noteq> 0 \<and> TrackToParticleIndex s m \<noteq> kINVALID_UINT \<longrightarrow> MotherTrackID s p = m) \<and>
        (m \<noteq> 0 \<and> TrackToParticleIndex s m = kINVALID_UINT \<and>
           (\<exists>q \<in> set (parts s). HasDaughter q (track_id r)) \<longrightarrow>
             (\<exists>q \<in> set (parts s). HasDaughter q (track_id r) \<and> MotherTrackID s p = track_id q)) \<and>
        (m \<noteq> 0 \<and> TrackToParticleIndex s m = kINVALID_UINT \<and>
           (\<forall>q \<in> set (parts s). \<not> HasDaughter q (track_id r)) \<longrightarrow> MotherTrackID s p = m)))"
proof -
  have found: "\<exists>q \<in> set xs. P q \<and> find P xs = Some q" if "\<exists>q \<in> set xs. P q" for P and xs :: "MCMiniPart list"
    using that by (induction xs) auto
  have none: "find P xs = None" if "\<forall>q \<in> set xs. \<not> P q" for P and xs :: "MCMiniPart list"
    using that by (simp add: find_None_iff)
  show ?thesis
    unfolding Let_def
  proof (intro conjI impI)
    assume "length (parts s) \<le> unat p"
    then show "MotherTrackID s p = kINVALID_UINT" by (simp add: MotherTrackID_def)
  next
    assume "unat p < length (parts s)" "mother (parts s ! unat p) = 0"
    then show "MotherTrackID s p = track_id (parts s ! unat p)"
      by (simp add: MotherTrackID_def part_at_def)
  next
    assume "unat p < length (parts s)"
      "mother (parts s ! unat p) \<noteq> 0 \<and> TrackToParticleIndex s (mother (parts s ! unat p)) \<noteq> kINVALID_UINT"
    then show "MotherTrackID s p = mother (parts s ! unat p)"
      by (simp add: MotherTrackID_def part_at_def)
  next
    assume v: "unat p < length (parts s)"
      and h: "mother (parts s ! unat p) \<noteq> 0 \<and>
        TrackToParticleIndex s (mother (parts s ! unat p)) = kINVALID_UINT \<and>
        (\<exists>q \<in> set (parts s). HasDaughter q (track_id (parts s ! unat p)))"
    from h found [of "parts s" "\<lambda>q. HasDaughter q (track_id (parts s ! unat p))"]
    obtain q where "q \<in> set (parts s)" "HasDaughter q (track_id (parts s ! unat p))"
      "find (\<lambda>q. HasDaughter q (track_id (parts s ! unat p))) (parts s) = Some q"
      by blast
    with v h show "\<exists>q \<in> set (parts s). HasDaughter q (track_id (parts s ! unat p)) \<and>
        MotherTrackID s p = track_id q"
      by (auto simp: MotherTrackID_def part_at_def brute_search_def)
  next
    assume v: "unat p < length (parts s)"
      and h: "mother (parts s ! unat p) \<noteq> 0 \<and>
        TrackToParticleIndex s (mother (parts s ! unat p)) = kINVALID_UINT \<and>
        (\<forall>q \<in> set (parts s). \<not> HasDaughter q (track_id (parts s ! unat p)))"
    with none [of "parts s" "\<lambda>q. HasDaughter q (track_id (parts s ! unat p))"]
    show "MotherTrackID s p = mother (parts s ! unat p)"
      by (simp add: MotherTrackID_def part_at_def brute_search_def)
  qed
qed

theorem MotherTrackID_cases_witness:
  "MotherTrackID broken 9 = kINVALID_UINT \<and> MotherTrackID broken 0 = 1 \<and>
   MotherTrackID broken 1 = 1 \<and> MotherTrackID broken 4 = 4 \<and> MotherTrackID broken 2 = 3"
  using MotherTrackID_cases [of broken 9] MotherTrackID_cases [of broken 0]
    MotherTrackID_cases [of broken 1] MotherTrackID_cases [of broken 4]
    MotherTrackID_cases [of broken 2]
  by (simp add: example_defs TrackToParticleIndex_def HasDaughter_def)

text \<open>
  C10. \<open>MotherTrackID\<close> leaves the whole state as it was. A call of \<open>AncestorTrackID\<close> that
  returns or throws leaves a state that differs from the old one at most in the ancestor
  field of the record at the queried position: the index, the bounds, the PDG list and all
  other fields and records are the same.
\<close>

theorem query_frame:
  "snd (MotherTrackID_call s p) = s \<and>
   (\<forall>res s'. AncestorTrackID s p = Some (res, s') \<longrightarrow>
      (\<exists>a. s' = s\<lparr>parts := (parts s)[unat p := (parts s ! unat p)\<lparr>ancestor := a\<rparr>]\<rparr>))"
proof (intro conjI allI impI)
  show "snd (MotherTrackID_call s p) = s"
    by (simp add: MotherTrackID_call_def)
next
  fix res s'
  assume "AncestorTrackID s p = Some (res, s')"
  from AncestorTrackID_frame [OF this]
  have "\<exists>a. s' = set_Ancestor s p a"
  proof
    assume "s' = s"
    then have "s' = set_Ancestor s p (ancestor (part_at s p))"
      by (simp add: set_Ancestor_same)
    then show ?thesis ..
  next
    assume "unat p < length (parts s) \<and> ancestor (part_at s p) = kINVALID_UINT \<and>
           (\<exists>r. res = Inr r \<and> s' = set_Ancestor s p r)"
    then show ?thesis by blast
  qed
  then show "\<exists>a. s' = s\<lparr>parts := (parts s)[unat p := (parts s ! unat p)\<lparr>ancestor := a\<rparr>]\<rparr>"
    by (simp add: set_Ancestor_def part_at_def)
qed

theorem query_frame_witness:
  "AncestorTrackID chain5 4 = Some (Inr 1, set_Ancestor chain5 4 1) \<and>
   (\<exists>a. set_Ancestor chain5 4 1 =
      chain5\<lparr>parts := (parts chain5)[unat (4 :: uint) := (parts chain5 ! unat (4 :: uint))\<lparr>ancestor := a\<rparr>]\<rparr>)"
  using query_frame [of chain5 4] AncestorTrackID_chain5
  by simp

section \<open>The ancestor cache\<close>




section \<open>Ingestion: the length check\<close>

text \<open>
  C7. When the particle and origin vectors differ in length, \<open>AddParticles\<close> throws its
  exception and the state is the one before the call: records and index are unchanged.
\<close>

theorem AddParticles_length_mismatch:
  "length orig_v \<noteq> length mcp_v \<Longrightarrow> AddParticles s mcp_v orig_v mcmp_v = (Inl cet_exception, s)"
  by (simp add: AddParticles_def)

theorem AddParticles_length_mismatch_witness:
  "length ([] :: Origin_t list) \<noteq> length [particle 1 0 [5]] \<and>
   AddParticles chain5 [particle 1 0 [5]] [] [mini 9 0 []] = (Inl cet_exception, chain5)"
  using AddParticles_length_mismatch [of "[]" "[particle 1 0 [5]]" chain5 "[mini 9 0 []]"]
  by simp

section \<open>Climbing a lineage\<close>

lemma MotherTrackID_link:
  assumes "link s c m"
  shows "MotherTrackID s c = track_id (part_at s m)"
  using assms by (simp add: link_def indexed_def MotherTrackID_def)

lemma step_link:
  assumes "link s c m" "c \<noteq> kINVALID_UINT"
  shows "ancestor_step s r c = Continue (track_id (part_at s m)) m"
  using assms MotherTrackID_link [OF assms(1)]
  by (simp add: ancestor_step_def) (simp add: link_def indexed_def)

lemma step_primary:
  assumes "primary s p" "p \<noteq> kINVALID_UINT"
  shows "ancestor_step s r p = Break r"
  using assms by (simp add: ancestor_step_def primary_def MotherTrackID_def)

lemma lineage_climb:
  assumes "lineage s (p # ps)" "p \<noteq> kINVALID_UINT" "primary s (last (p # ps))"
  shows "ancestor_loop_upto (Suc (length ps)) s (track_id (part_at s p)) p
       = Some (Inr (track_id (part_at s (last (p # ps)))))"
  using assms
proof (induction ps arbitrary: p)
  case Nil
  then show ?case by (simp add: step_primary)
next
  case (Cons m ps)
  from Cons.prems have l: "link s p m" and rest: "lineage s (m # ps)" by simp_all
  from l have m: "m \<noteq> kINVALID_UINT" by (simp add: link_def indexed_def)
  from Cons.prems have "primary s (last (m # ps))" by simp
  from Cons.IH [OF rest m this] step_link [OF l Cons.prems(2)]
  show ?case by simp
qed








lemma AncestorTrackID_climb:
  assumes valid: "unat d < length (parts s)"
    and unset: "ancestor (part_at s d) = kINVALID_UINT"
    and self: "MotherTrackID s d \<noteq> track_id (part_at s d)"
    and zero: "MotherTrackID s d \<noteq> 0"
    and loop: "ancestor_loop_upto n s (MotherTrackID s d) (TrackToParticleIndex s (MotherTrackID s d)) = Some (Inr r)"
  shows "AncestorTrackID s d = Some (Inr r, set_Ancestor s d r)"
  using valid unset self zero loop_upto_imp_loop [OF loop]
  by (simp add: AncestorTrackID_def)

section \<open>Ingestion: records and index\<close>

lemma track_id_make_mini [simp]: "track_id (make_mini s mcp orig) = to_uint (TrackId mcp)"
  by (simp add: make_mini_def Let_def split: option.splits)

lemma add_particle_push: "add_particle (mcp, orig) s = push_record (make_mini s mcp orig) s"
  by (simp add: add_particle_def push_record_def)

lemma add_dropped_push: "add_dropped mcmp s = push_record mcmp s"
  by (simp add: add_dropped_def push_record_def)

lemma first_pos_append_old:
  "t \<in> set ids \<Longrightarrow> first_pos t (ids @ ys) = first_pos t ids"
  by (simp add: first_pos_def takeWhile_append1)

lemma first_pos_append_new:
  "t \<notin> set ids \<Longrightarrow> first_pos t (ids @ [t]) = length ids"
  by (induction ids) (auto simp: first_pos_def)

lemma first_pos_less: "t \<in> set ids \<Longrightarrow> first_pos t ids < length ids"
  by (induction ids) (auto simp: first_pos_def)

lemma first_pos_nth: "t \<in> set ids \<Longrightarrow> ids ! first_pos t ids = t"
  by (induction ids) (auto simp: first_pos_def)

lemma first_pos_before: "j < first_pos t ids \<Longrightarrow> ids ! j \<noteq> t"
proof (induction ids arbitrary: j)
  case Nil
  then show ?case by (simp add: first_pos_def)
next
  case (Cons a ids)
  then show ?case
    by (cases j) (auto simp: first_pos_def split: if_splits)
qed

lemma first_pos_eq:
  assumes "i < length ids" "ids ! i = t" "\<forall>k < i. ids ! k \<noteq> t"
  shows "first_pos t ids = i"
proof -
  from assms(1,2) have mem: "t \<in> set ids" by auto
  have "\<not> first_pos t ids < i"
    using assms(3) first_pos_nth [OF mem] by auto
  moreover have "\<not> i < first_pos t ids"
    using first_pos_before [of i t ids] assms(2) by auto
  ultimately show ?thesis by simp
qed

lemma index_first_push:
  assumes "index_first s"
  shows "index_first (push_record r s)"
  unfolding index_first_def
proof
  fix t
  let ?ids = "map track_id (parts s)"
  from assms have inv: "track_index s t =
      (if t \<in> set ?ids then Some (of_nat (first_pos t ?ids)) else None)"
    and invr: "track_index s (track_id r) =
      (if track_id r \<in> set ?ids then Some (of_nat (first_pos (track_id r) ?ids)) else None)"
    by (simp_all add: index_first_def)
  show "track_index (push_record r s) t =
      (if t \<in> set (map track_id (parts (push_record r s)))
       then Some (of_nat (first_pos t (map track_id (parts (push_record r s))))) else None)"
  proof (cases "t \<in> set ?ids")
    case True
    with inv invr show ?thesis
      by (auto simp: push_record_def map_insert_def first_pos_append_old split: option.splits)
  next
    case False
    show ?thesis
    proof (cases "t = track_id r")
      case True
      with False inv show ?thesis
        by (simp add: push_record_def map_insert_def first_pos_append_new)
    next
      case neq: False
      with False inv invr show ?thesis
        by (auto simp: push_record_def map_insert_def split: option.splits)
    qed
  qed
qed

lemma index_first_empty: "index_first (s\<lparr>parts := [], track_index := Map.empty\<rparr>)"
  by (simp add: index_first_def)

lemma fold_add_dropped:
  "index_first s \<Longrightarrow> index_first (fold add_dropped ms s)"
  "parts (fold add_dropped ms s) = parts s @ ms"
  "pdg_list (fold add_dropped ms s) = pdg_list s"
  by (induction ms arbitrary: s) (simp_all add: add_dropped_push index_first_push, simp_all add: push_record_def)

lemma InDetector_cong:
  assumes "x_min s' = x_min s" "x_max s' = x_max s" "y_min s' = y_min s" "y_max s' = y_max s"
    "z_min s' = z_min s" "z_max s' = z_max s"
  shows "InDetector s' = InDetector s"
  using assms by (simp add: InDetector_def fun_eq_iff)

lemma make_mini_cong:
  assumes "InDetector s' = InDetector s" "pdg_list s' = pdg_list s"
  shows "make_mini s' mcp orig = make_mini s mcp orig"
proof -
  from assms(1) have "inside_index s' mcp = inside_index s mcp"
    by (simp add: inside_index_def)
  then have "det_path_index s' mcp = det_path_index s mcp"
    by (simp add: det_path_index_def)
  with assms(2) show ?thesis
    by (simp add: make_mini_def Let_def)
qed

lemma make_mini_push [simp]: "make_mini (push_record r s) mcp orig = make_mini s mcp orig"
proof (rule make_mini_cong)
  show "InDetector (push_record r s) = InDetector s"
    by (rule InDetector_cong) (simp_all add: push_record_def)
  show "pdg_list (push_record r s) = pdg_list s"
    by (simp add: push_record_def)
qed

lemma make_mini_cleared [simp]:
  "make_mini (s\<lparr>parts := ps, track_index := m\<rparr>) mcp orig = make_mini s mcp orig"
proof (rule make_mini_cong)
  show "InDetector (s\<lparr>parts := ps, track_index := m\<rparr>) = InDetector s"
    by (rule InDetector_cong) simp_all
  show "pdg_list (s\<lparr>parts := ps, track_index := m\<rparr>) = pdg_list s"
    by simp
qed

lemma fold_add_particle_parts:
  "parts (fold add_particle xs s) = parts s @ map (\<lambda>(mcp, orig). make_mini s mcp orig) xs"
proof (induction xs arbitrary: s)
  case Nil
  then show ?case by simp
next
  case (Cons x xs)
  obtain mcp orig where x: "x = (mcp, orig)" by (cases x)
  have "parts (push_record (make_mini s mcp orig) s) = parts s @ [make_mini s mcp orig]"
    by (simp add: push_record_def)
  with Cons.IH [of "push_record (make_mini s mcp orig) s"] show ?case
    by (simp add: x add_particle_push)
qed

lemma fold_add_particle_index:
  "index_first s \<Longrightarrow> index_first (fold add_particle xs s)"
proof (induction xs arbitrary: s)
  case Nil
  then show ?case by simp
next
  case (Cons x xs)
  obtain mcp orig where x: "x = (mcp, orig)" by (cases x)
  from Cons.prems have "index_first (push_record (make_mini s mcp orig) s)"
    by (rule index_first_push)
  from Cons.IH [OF this] show ?case
    by (simp add: x add_particle_push)
qed

lemma AddParticles_parts:
  assumes "length orig_v = length mcp_v"
  shows "parts (snd (AddParticles s mcp_v orig_v mcmp_v)) =
           map (\<lambda>(mcp, orig). make_mini s mcp orig) (zip mcp_v orig_v) @ mcmp_v"
  using assms by (simp add: AddParticles_def fold_add_dropped fold_add_particle_parts)

lemma AddParticles_index_first:
  assumes "length orig_v = length mcp_v"
  shows "index_first (snd (AddParticles s mcp_v orig_v mcmp_v))"
  using assms
  by (simp add: AddParticles_def fold_add_dropped fold_add_particle_index index_first_empty)

lemma AddParticles_track_ids:
  assumes "length orig_v = length mcp_v"
  shows "map track_id (parts (snd (AddParticles s mcp_v orig_v mcmp_v))) =
           map (\<lambda>mcp. to_uint (TrackId mcp)) mcp_v @ map track_id mcmp_v"
proof -
  have "map (track_id \<circ> (\<lambda>(mcp, orig). make_mini s mcp orig)) (zip mcp_v orig_v)
      = map (\<lambda>mcp. to_uint (TrackId mcp)) mcp_v"
    using assms
    by (intro nth_equalityI) simp_all
  with AddParticles_parts [OF assms, of s mcmp_v] show ?thesis
    by simp
qed

lemma AddParticles_Inr:
  "AddParticles s mcp_v orig_v mcmp_v = (Inr (), s') \<Longrightarrow>
     length orig_v = length mcp_v \<and> s' = snd (AddParticles s mcp_v orig_v mcmp_v)"
  by (auto simp: AddParticles_def split: if_splits)

lemma unat_position:
  "n < 2 ^ 32 \<Longrightarrow> unat (of_nat n :: uint) = n"
  by (simp add: unat_of_nat)

lemma index_first_sync:
  assumes inv: "index_first s" and size: "length (parts s) < 2 ^ 32"
    and hit: "track_index s t = Some p"
  shows "unat p < length (parts s) \<and> track_id (parts s ! unat p) = t \<and>
         (\<forall>j < unat p. track_id (parts s ! j) \<noteq> t)"
proof -
  let ?ids = "map track_id (parts s)"
  from inv hit have mem: "t \<in> set ?ids" and p: "p = of_nat (first_pos t ?ids)"
    by (auto simp: index_first_def split: if_splits)
  from first_pos_less [OF mem] have less: "first_pos t ?ids < length (parts s)"
    by simp
  with size have u: "unat p = first_pos t ?ids"
    unfolding p by (intro unat_position) simp
  from first_pos_nth [OF mem] less have "track_id (parts s ! first_pos t ?ids) = t"
    by simp
  moreover have "track_id (parts s ! j) \<noteq> t" if "j < first_pos t ?ids" for j
    using first_pos_before [OF that] that less by simp
  ultimately show ?thesis
    using less u by simp
qed

lemma index_first_total:
  assumes "index_first s" "r \<in> set (parts s)"
  shows "track_index s (track_id r) \<noteq> None"
  using assms by (simp add: index_first_def)

lemma distinct_unique_position:
  assumes "distinct (map f xs)" "r \<in> set xs"
  shows "\<exists>!i. i < length xs \<and> f (xs ! i) = f r"
proof -
  from assms(2) obtain i where i: "i < length xs" "xs ! i = r"
    by (auto simp: in_set_conv_nth)
  show ?thesis
  proof (rule ex1I [of _ i])
    show "i < length xs \<and> f (xs ! i) = f r" using i by simp
  next
    fix j
    assume "j < length xs \<and> f (xs ! j) = f r"
    with i have "map f xs ! j = map f xs ! i" "j < length (map f xs)" "i < length (map f xs)"
      by simp_all
    with nth_eq_iff_index_eq [OF assms(1), of j i] show "j = i"
      by simp
  qed
qed

lemmas batch_defs = to_uint_def particle_def mini_def MCMiniPart_default_def

text \<open>
  C1, as the claim is written, fails: a dropped-particle record whose track id is already
  indexed is appended all the same, so that track id 1 is at positions 0 and 1.
\<close>

theorem dropped_duplicate_appended:
  "map track_id (parts (snd (AddParticles box10 [particle 1 0 [5]] [kBeamNeutrino] [mini 1 0 []])))
     = [1, 1]"
  by (simp add: AddParticles_track_ids batch_defs)

text \<open>
  C1, amended. After \<open>AddParticles\<close> on fewer than \<open>2 ^ 32\<close> records in all, the list
  holds one record for every particle of the batch followed by every dropped-particle
  record, in order; the records and the index entries made from the particle batch are
  what they are without the dropped batch (first write wins in the index); the record at
  each indexed position bears that track id and is the first that does; every record's
  track id is indexed; and when the track ids of the list are distinct each occupies
  exactly one position.
\<close>

theorem AddParticles_index_sync:
  assumes run: "AddParticles s mcp_v orig_v mcmp_v = (Inr (), s')"
    and full: "AddParticles s mcp_v orig_v [] = (Inr (), s1)"
    and size: "length mcp_v + length mcmp_v < 2 ^ 32"
  shows "map track_id (parts s') = map (\<lambda>mcp. to_uint (TrackId mcp)) mcp_v @ map track_id mcmp_v \<and>
    parts s' = parts s1 @ mcmp_v \<and>
    (\<forall>t \<in> dom (track_index s1). track_index s' t = track_index s1 t) \<and>
    (\<forall>t p. track_index s' t = Some p \<longrightarrow>
       unat p < length (parts s') \<and> track_id (parts s' ! unat p) = t \<and>
       (\<forall>j < unat p. track_id (parts s' ! j) \<noteq> t)) \<and>
    (\<forall>r \<in> set (parts s'). track_index s' (track_id r) \<noteq> None) \<and>
    (distinct (map track_id (parts s')) \<longrightarrow>
       (\<forall>r \<in> set (parts s'). \<exists>!i. i < length (parts s') \<and> track_id (parts s' ! i) = track_id r))"
proof -
  from AddParticles_Inr [OF run] have len: "length orig_v = length mcp_v"
    and s': "s' = snd (AddParticles s mcp_v orig_v mcmp_v)" by simp_all
  from AddParticles_Inr [OF full] have s1: "s1 = snd (AddParticles s mcp_v orig_v [])"
    by simp
  have ids: "map track_id (parts s') = map (\<lambda>mcp. to_uint (TrackId mcp)) mcp_v @ map track_id mcmp_v"
    unfolding s' by (rule AddParticles_track_ids [OF len])
  have parts: "parts s' = parts s1 @ mcmp_v"
    unfolding s' s1 by (simp add: AddParticles_parts [OF len])
  have inv: "index_first s'" "index_first s1"
    unfolding s' s1 by (rule AddParticles_index_first [OF len])+
  have keep: "track_index s' t = track_index s1 t" if "t \<in> dom (track_index s1)" for t
  proof -
    from that inv(2) have mem: "t \<in> set (map track_id (parts s1))"
      by (auto simp: index_first_def split: if_splits)
    with inv show ?thesis
      by (simp add: index_first_def parts first_pos_append_old)
  qed
  from ids size have "length (parts s') < 2 ^ 32"
    by (metis length_append length_map)
  with inv(1) have sync: "unat p < length (parts s') \<and> track_id (parts s' ! unat p) = t \<and>
       (\<forall>j < unat p. track_id (parts s' ! j) \<noteq> t)" if "track_index s' t = Some p" for t p
    using that by (intro index_first_sync)
  show ?thesis
    using ids parts keep sync index_first_total [OF inv(1)] distinct_unique_position [of track_id "parts s'"]
    by blast
qed

theorem AddParticles_index_sync_witness:
  "AddParticles box10 [particle 1 0 [5], particle 2 1 [5]] [kBeamNeutrino, kBeamNeutrino]
      [mini 1 0 [], mini 3 2 []]
     = (Inr (), snd (AddParticles box10 [particle 1 0 [5], particle 2 1 [5]]
          [kBeamNeutrino, kBeamNeutrino] [mini 1 0 [], mini 3 2 []])) \<and>
   length [particle 1 0 [5], particle 2 1 [5]] + length [mini 1 0 [], mini 3 2 []] < (2 :: nat) ^ 32 \<and>
   map track_id (parts (snd (AddParticles box10 [particle 1 0 [5], particle 2 1 [5]]
          [kBeamNeutrino, kBeamNeutrino] [mini 1 0 [], mini 3 2 []]))) = [1, 2, 1, 3] \<and>
   parts (snd (AddParticles box10 [particle 1 0 [5], particle 2 1 [5]]
          [kBeamNeutrino, kBeamNeutrino] [mini 1 0 [], mini 3 2 []]))
     = parts (snd (AddParticles box10 [particle 1 0 [5], particle 2 1 [5]]
          [kBeamNeutrino, kBeamNeutrino] [])) @ [mini 1 0 [], mini 3 2 []]"
proof -
  let ?mcps = "[particle 1 0 [5], particle 2 1 [5]]"
  let ?origs = "[kBeamNeutrino, kBeamNeutrino]"
  let ?drops = "[mini 1 0 [], mini 3 2 []]"
  have run: "AddParticles box10 ?mcps ?origs ?drops
      = (Inr (), snd (AddParticles box10 ?mcps ?origs ?drops))"
    by (simp add: AddParticles_def)
  have full: "AddParticles box10 ?mcps ?origs []
      = (Inr (), snd (AddParticles box10 ?mcps ?origs []))"
    by (simp add: AddParticles_def)
  have size: "length ?mcps + length ?drops < (2 :: nat) ^ 32"
    by simp
  note sync = AddParticles_index_sync [OF run full size]
  have "map (\<lambda>mcp. to_uint (TrackId mcp)) ?mcps @ map track_id ?drops = [1, 2, 1, 3]"
    by (simp add: batch_defs)
  with sync [THEN conjunct1]
  have ids: "map track_id (parts (snd (AddParticles box10 ?mcps ?origs ?drops))) = [1, 2, 1, 3]"
    by (simp only:)
  note appended = sync [THEN conjunct2, THEN conjunct1]
  from run size ids appended show ?thesis
    by (intro conjI)
qed

text \<open>
  C9. When two particles of the batch, at \<open>i\<close> and at \<open>j\<close> after it, have the same track
  id and \<open>i\<close> is its first occurrence, a record is appended for each (the list has one
  record per input) and the index maps the track id to \<open>i\<close>.
\<close>

theorem duplicate_in_batch_first_wins:
  assumes run: "AddParticles s mcp_v orig_v mcmp_v = (Inr (), s')"
    and ij: "i < j" "j < length mcp_v"
    and same: "TrackId (mcp_v ! j) = TrackId (mcp_v ! i)"
    and first: "\<forall>k < i. to_uint (TrackId (mcp_v ! k)) \<noteq> to_uint (TrackId (mcp_v ! i))"
  shows "length (parts s') = length mcp_v + length mcmp_v \<and>
    track_id (parts s' ! i) = to_uint (TrackId (mcp_v ! i)) \<and>
    track_id (parts s' ! j) = to_uint (TrackId (mcp_v ! i)) \<and>
    track_index s' (to_uint (TrackId (mcp_v ! i))) = Some (of_nat i)"
proof -
  let ?t = "to_uint (TrackId (mcp_v ! i))"
  let ?ids = "map (\<lambda>mcp. to_uint (TrackId mcp)) mcp_v @ map track_id mcmp_v"
  from AddParticles_Inr [OF run] have len: "length orig_v = length mcp_v"
    and s': "s' = snd (AddParticles s mcp_v orig_v mcmp_v)" by simp_all
  have ids: "map track_id (parts s') = ?ids"
    unfolding s' by (rule AddParticles_track_ids [OF len])
  then have n: "length (parts s') = length mcp_v + length mcmp_v"
    by (metis length_append length_map)
  from ij have i: "i < length mcp_v" by simp
  have at_i: "?ids ! i = ?t" and at_j: "?ids ! j = ?t"
    using i ij(2) same by (simp_all add: nth_append)
  have before: "\<forall>k < i. ?ids ! k \<noteq> ?t"
    using first i by (simp add: nth_append)
  from i have "i < length ?ids" by simp
  from first_pos_eq [OF this at_i before] have fp: "first_pos ?t ?ids = i" .
  have mem: "?t \<in> set ?ids"
    using i by (auto simp: in_set_conv_nth intro!: exI [of _ i])
  have inv: "index_first s'"
    unfolding s' by (rule AddParticles_index_first [OF len])
  with mem fp have "track_index s' ?t = Some (of_nat i)"
    unfolding index_first_def ids by simp
  moreover have "track_id (parts s' ! i) = ?t" "track_id (parts s' ! j) = ?t"
    using at_i at_j ids n i ij(2) by (metis nth_map trans_less_add1)+
  ultimately show ?thesis
    using n by simp
qed

theorem duplicate_in_batch_first_wins_witness:
  "AddParticles box10 [particle 7 0 [5], particle 7 0 [5]] [kCosmicRay, kCosmicRay] []
     = (Inr (), snd (AddParticles box10 [particle 7 0 [5], particle 7 0 [5]] [kCosmicRay, kCosmicRay] [])) \<and>
   length (parts (snd (AddParticles box10 [particle 7 0 [5], particle 7 0 [5]] [kCosmicRay, kCosmicRay] []))) = 2 \<and>
   track_index (snd (AddParticles box10 [particle 7 0 [5], particle 7 0 [5]] [kCosmicRay, kCosmicRay] [])) 7
     = Some 0"
proof -
  let ?mcps = "[particle 7 0 [5], particle 7 0 [5]]"
  let ?origs = "[kCosmicRay, kCosmicRay]"
  have run: "AddParticles box10 ?mcps ?origs [] = (Inr (), snd (AddParticles box10 ?mcps ?origs []))"
    by (simp add: AddParticles_def)
  have ij: "(0 :: nat) < 1" "1 < length ?mcps"
    by simp_all
  have same: "TrackId (?mcps ! 1) = TrackId (?mcps ! 0)"
    by (simp add: particle_def)
  have first: "\<forall>k < (0 :: nat). to_uint (TrackId (?mcps ! k)) \<noteq> to_uint (TrackId (?mcps ! 0))"
    by simp
  from duplicate_in_batch_first_wins [OF run ij same first] run show ?thesis
    by (simp add: batch_defs)
qed

section \<open>Ingestion: the detector path\<close>

lemma set_insert_append: "\<forall>x \<in> set S. x < i \<Longrightarrow> set_insert i S = S @ [i]"
  by (induction S) auto

lemma fold_set_insert:
  assumes "sorted_wrt (<) xs" "\<forall>x \<in> set S. \<forall>y \<in> set xs. x < y"
  shows "fold (\<lambda>i S. if P i then set_insert i S else S) xs S = S @ filter P xs"
  using assms
proof (induction xs arbitrary: S)
  case Nil
  then show ?case by simp
next
  case (Cons a xs)
  from Cons.prems have below: "\<forall>x \<in> set S. x < a" and above: "\<forall>y \<in> set xs. a < y"
    and rest: "sorted_wrt (<) xs" and S: "\<forall>x \<in> set S. \<forall>y \<in> set xs. x < y"
    by auto
  show ?case
  proof (cases "P a")
    case True
    from below have ins: "set_insert a S = S @ [a]" by (rule set_insert_append)
    from above S have "\<forall>x \<in> set (S @ [a]). \<forall>y \<in> set xs. x < y" by auto
    from Cons.IH [OF rest this] True ins show ?thesis by simp
  next
    case False
    with Cons.IH [OF rest S] show ?thesis by simp
  qed
qed

lemma inside_index_eq: "inside_index s mcp = points_inside s mcp"
  unfolding inside_index_def points_inside_def
  using fold_set_insert [of "[0 ..< NumberTrajectoryPoints mcp]" "[]"]
  by (simp add: sorted_wrt_upt)

lemma sorted_points_inside: "sorted_wrt (<) (points_inside s mcp)"
  unfolding points_inside_def by (rule sorted_wrt_filter) (rule sorted_wrt_upt)

lemma points_inside_less: "i \<in> set (points_inside s mcp) \<Longrightarrow> i < NumberTrajectoryPoints mcp"
  by (simp add: points_inside_def)

lemma strict_sorted_le_last:
  assumes "sorted_wrt (<) (S :: nat list)" "x \<in> set S"
  shows "x \<le> last S"
  using assms
proof (induction S)
  case Nil
  then show ?case by simp
next
  case (Cons a S)
  then show ?case by (cases "S = []") (auto intro: less_imp_le order_trans)
qed

lemma pad_index_eq:
  assumes "sorted_wrt (<) I" "I \<noteq> []"
  shows "pad_index n I = padded n I"
proof -
  have last_max: "\<forall>x \<in> set I. x < last I + 1"
    using strict_sorted_le_last [OF assms(1)] by (auto simp: less_Suc_eq_le)
  show ?thesis
  proof (cases "hd I = 0")
    case True
    from last_max have "set_insert (last I + 1) I = I @ [last I + 1]"
      by (rule set_insert_append)
    with True show ?thesis
      by (simp add: pad_index_def padded_def Let_def)
  next
    case False
    from assms(2) have I: "I = hd I # tl I" by simp
    from False have "hd I - 1 < hd I" by simp
    then have "set_insert (hd I - 1) (hd I # tl I) = (hd I - 1) # hd I # tl I"
      by simp
    with I have left: "set_insert (hd I - 1) I = (hd I - 1) # I"
      by simp
    from last_max assms(2) have "hd I < last I + 1"
      by simp
    then have "hd I - 1 < last I + 1"
      by simp
    with last_max have "\<forall>x \<in> set ((hd I - 1) # I). x < last I + 1"
      by simp
    then have right: "set_insert (last I + 1) ((hd I - 1) # I) = ((hd I - 1) # I) @ [last I + 1]"
      by (rule set_insert_append)
    have "last ((hd I - 1) # I) = last I" "length ((hd I - 1) # I) > 1"
      using assms(2) by simp_all
    with False left right show ?thesis
      by (simp add: pad_index_def padded_def Let_def del: set_insert.simps last.simps)
  qed
qed

lemma det_path_index_eq:
  "det_path_index s mcp =
     (if points_inside s mcp = [] then None
      else Some (padded (NumberTrajectoryPoints mcp) (points_inside s mcp)))"
  using pad_index_eq [OF sorted_points_inside, of s mcp "NumberTrajectoryPoints mcp"]
  by (simp add: det_path_index_def inside_index_eq)

lemma sorted_padded:
  assumes "sorted_wrt (<) I" "I \<noteq> []"
  shows "sorted_wrt (<) (padded n I)"
proof -
  have hd_min: "\<forall>x \<in> set I. hd I \<le> x"
    using assms by (cases I) (auto intro: less_imp_le)
  have last_max: "\<forall>x \<in> set I. x \<le> last I"
    using strict_sorted_le_last [OF assms(1)] by simp
  from hd_min have lo: "hd I \<noteq> 0 \<Longrightarrow> \<forall>x \<in> set I. hd I - 1 < x"
    by (metis diff_less le_zero_eq less_one linorder_not_le order_less_le_trans)
  from last_max have hi: "\<forall>x \<in> set I. x < last I + 1"
    by (auto simp: less_Suc_eq_le)
  from assms(2) have "hd I \<le> last I"
    using hd_min by simp
  then have ends: "hd I - 1 < last I + 1" by simp
  show ?thesis
    using assms(1) lo hi ends
    by (auto simp: padded_def sorted_wrt_append)
qed

lemmas path_defs = points_inside_def InDetector_def dgreater_def Vx_def Vy_def Vz_def Position_def
  NumberTrajectoryPoints_def particle_def point_def box10_def padded_def upt_conv_Cons

lemma det_path_make_mini:
  "det_path (make_mini s mcp orig) =
     (if PdgCode mcp \<in> pdg_list s
      then (case det_path_index s mcp of Some S \<Rightarrow> make_det_path mcp S | None \<Rightarrow> [])
      else [])"
  by (simp add: make_mini_def Let_def MCMiniPart_default_def split: option.splits)

text \<open>
  C2, as the claim is written, fails: when only point 0 of a trajectory of ten points is
  inside, the index set is \<open>{0}\<close>, not \<open>{0, 1}\<close>.
\<close>

theorem first_point_only_not_padded:
  "det_path_index box10 (particle 1 0 [5, 20, 20, 20, 20, 20, 20, 20, 20, 20]) = Some [0] \<and>
   det_path_index box10 (particle 1 0 [5, 20, 20, 20, 20, 20, 20, 20, 20, 20]) \<noteq> Some [0, 1]"
proof -
  have "points_inside box10 (particle 1 0 [5, 20, 20, 20, 20, 20, 20, 20, 20, 20]) = [0]"
    by (simp add: path_defs)
  then show ?thesis
    by (simp add: det_path_index_eq padded_def)
qed

text \<open>
  C2, amended. The index set built for a trajectory is absent when no point is inside, and
  then no path is stored in the record. Otherwise it is the ascending list of the indices
  inside, with the index before the smallest in front unless the smallest is 0, and the
  index after the largest behind when that index exists and the set is not just \<open>{0}\<close>;
  for a species of interest the stored path is read off these indices in this order.
\<close>

theorem det_path_padding:
  "(points_inside s mcp = [] \<longrightarrow>
      det_path_index s mcp = None \<and> det_path (make_mini s mcp orig) = []) \<and>
   (points_inside s mcp \<noteq> [] \<longrightarrow>
      det_path_index s mcp = Some (padded (NumberTrajectoryPoints mcp) (points_inside s mcp)) \<and>
      sorted_wrt (<) (padded (NumberTrajectoryPoints mcp) (points_inside s mcp)) \<and>
      (PdgCode mcp \<in> pdg_list s \<longrightarrow>
         det_path (make_mini s mcp orig) =
           make_det_path mcp (padded (NumberTrajectoryPoints mcp) (points_inside s mcp))))"
  using sorted_padded [OF sorted_points_inside, of s mcp "NumberTrajectoryPoints mcp"]
  by (simp add: det_path_index_eq det_path_make_mini)

theorem det_path_padding_witness:
  "det_path_index box10 (particle 1 0 [20, 20, 20, 5, 5, 5, 20, 20, 20, 20]) = Some [2, 3, 4, 5, 6] \<and>
   det_path_index box10 (particle 1 0 [20, 20, 5, 20]) = Some [1, 2, 3] \<and>
   det_path_index box10 (particle 1 0 [20, 5]) = Some [0, 1] \<and>
   det_path_index box10 (particle 1 0 [20, 20]) = None"
proof -
  have a: "points_inside box10 (particle 1 0 [20, 20, 20, 5, 5, 5, 20, 20, 20, 20]) = [3, 4, 5]"
    by (simp add: path_defs)
  have b: "points_inside box10 (particle 1 0 [20, 20, 5, 20]) = [2]"
    by (simp add: path_defs)
  have c: "points_inside box10 (particle 1 0 [20, 5]) = [1]"
    by (simp add: path_defs)
  have d: "points_inside box10 (particle 1 0 [20, 20]) = []"
    by (simp add: path_defs)
  from det_path_padding [of box10 "particle 1 0 [20, 20, 20, 5, 5, 5, 20, 20, 20, 20]"] a
  have "det_path_index box10 (particle 1 0 [20, 20, 20, 5, 5, 5, 20, 20, 20, 20]) = Some [2, 3, 4, 5, 6]"
    by (simp add: padded_def NumberTrajectoryPoints_def particle_def)
  moreover from det_path_padding [of box10 "particle 1 0 [20, 20, 5, 20]"] b
  have "det_path_index box10 (particle 1 0 [20, 20, 5, 20]) = Some [1, 2, 3]"
    by (simp add: padded_def NumberTrajectoryPoints_def particle_def)
  moreover from det_path_padding [of box10 "particle 1 0 [20, 5]"] c
  have "det_path_index box10 (particle 1 0 [20, 5]) = Some [0, 1]"
    by (simp add: padded_def NumberTrajectoryPoints_def particle_def)
  moreover from det_path_padding [of box10 "particle 1 0 [20, 20]"] d
  have "det_path_index box10 (particle 1 0 [20, 20]) = None"
    by simp
  ultimately show ?thesis
    by (intro conjI)
qed

section \<open>Lineages and the cache\<close>

lemma mother_make_mini [simp]: "mother (make_mini s mcp orig) = to_uint (Mother mcp)"
  by (simp add: make_mini_def Let_def split: option.splits)

lemma ancestor_make_mini [simp]: "ancestor (make_mini s mcp orig) = kINVALID_UINT"
  by (simp add: make_mini_def Let_def MCMiniPart_default_def split: option.splits)

lemma daughters_make_mini [simp]:
  "daughters (make_mini s mcp orig) = to_uint ` set (Daughters mcp)"
proof -
  have "fold (\<lambda>d D. insert (to_uint d) D) ds D = to_uint ` set ds \<union> D" for ds D
    by (induction ds arbitrary: D) auto
  then show ?thesis
    by (simp add: make_mini_def Let_def split: option.splits)
qed

lemma AddParticles_ancestor_unset:
  assumes "AddParticles s0 mcp_v orig_v mcmp_v = (Inr (), s)" "unat p < length mcp_v"
  shows "ancestor (part_at s p) = kINVALID_UINT"
proof -
  from AddParticles_Inr [OF assms(1)] have len: "length orig_v = length mcp_v"
    and s: "s = snd (AddParticles s0 mcp_v orig_v mcmp_v)" by simp_all
  from assms(2) len show ?thesis
    unfolding s part_at_def AddParticles_parts [OF len]
    by (simp add: nth_append)
qed

lemma ingested5_parts:
  "parts ingested5 = map (\<lambda>mcp. make_mini box10 mcp kBeamNeutrino) (batch4 @ [particle 5 4 [5]])"
  by (simp add: ingested5_def AddParticles_parts batch4_def origins4_def)

lemma ingested5_index:
  "track_index ingested5 = [1 \<mapsto> 0, 2 \<mapsto> 1, 3 \<mapsto> 2, 4 \<mapsto> 3, 5 \<mapsto> 4]"
  by (simp add: ingested5_def AddParticles_def batch4_def origins4_def add_particle_def
      map_insert_def to_uint_def particle_def)

lemma cached5_parts:
  "parts cached5 = map (\<lambda>mcp. make_mini box10 mcp kBeamNeutrino) batch4
     @ [(mini 5 4 [])\<lparr>ancestor := 42\<rparr>]"
  by (simp add: cached5_def AddParticles_parts batch4_def origins4_def)

lemma cached5_index:
  "track_index cached5 = [1 \<mapsto> 0, 2 \<mapsto> 1, 3 \<mapsto> 2, 4 \<mapsto> 3, 5 \<mapsto> 4]"
  by (simp add: cached5_def AddParticles_def batch4_def origins4_def add_particle_def
      add_dropped_def map_insert_def to_uint_def particle_def mini_def MCMiniPart_default_def)

lemma ingested_broken_parts:
  "parts ingested_broken =
     map (\<lambda>mcp. make_mini box10 mcp kBeamNeutrino) (broken_batch @ [particle 5 4 [5]])"
  by (simp add: ingested_broken_def AddParticles_parts broken_batch_def origins3_def)

lemma ingested_broken_index:
  "track_index ingested_broken = [1 \<mapsto> 0, 2 \<mapsto> 1, 4 \<mapsto> 2, 5 \<mapsto> 3]"
  by (simp add: ingested_broken_def AddParticles_def broken_batch_def origins3_def add_particle_def
      map_insert_def to_uint_def particle_def)

lemma cached_broken_parts:
  "parts cached_broken = map (\<lambda>mcp. make_mini box10 mcp kBeamNeutrino) broken_batch
     @ [(mini 5 4 [])\<lparr>ancestor := 42\<rparr>]"
  by (simp add: cached_broken_def AddParticles_parts broken_batch_def origins3_def)

lemma cached_broken_index:
  "track_index cached_broken = [1 \<mapsto> 0, 2 \<mapsto> 1, 4 \<mapsto> 2, 5 \<mapsto> 3]"
  by (simp add: cached_broken_def AddParticles_def broken_batch_def origins3_def add_particle_def
      add_dropped_def map_insert_def to_uint_def particle_def mini_def MCMiniPart_default_def)

lemmas ingested_defs = ingested5_parts ingested5_index cached5_parts cached5_index batch4_def
  ingested_broken_parts ingested_broken_index cached_broken_parts cached_broken_index
  broken_batch_def to_uint_def particle_def mini_def MCMiniPart_default_def kINVALID_UINT_def

lemmas lineage_defs = link_def indexed_def primary_def gap_def part_at_def
  TrackToParticleIndex_def HasDaughter_def


lemma AncestorTrackID_by_cache:
  assumes valid: "unat d < length (parts s)"
    and self: "MotherTrackID s d \<noteq> track_id (part_at s d)"
    and zero: "MotherTrackID s d \<noteq> 0"
    and loop: "ancestor_loop_upto n s (MotherTrackID s d) (TrackToParticleIndex s (MotherTrackID s d)) = Some (Inr r)"
  shows "(ancestor (part_at s d) = kINVALID_UINT \<longrightarrow>
           AncestorTrackID s d = Some (Inr r, set_Ancestor s d r)) \<and>
         (ancestor (part_at s d) \<noteq> kINVALID_UINT \<longrightarrow>
           AncestorTrackID s d = Some (Inr (ancestor (part_at s d)), s)) \<and>
         (\<forall>s0 mcp_v orig_v mcmp_v.
            AddParticles s0 mcp_v orig_v mcmp_v = (Inr (), s) \<and> unat d < length mcp_v \<longrightarrow>
              AncestorTrackID s d = Some (Inr r, set_Ancestor s d r))"
proof (intro conjI impI allI)
  assume "ancestor (part_at s d) = kINVALID_UINT"
  then show "AncestorTrackID s d = Some (Inr r, set_Ancestor s d r)"
    using self zero loop by (rule AncestorTrackID_climb [OF valid])
next
  assume "ancestor (part_at s d) \<noteq> kINVALID_UINT"
  with valid show "AncestorTrackID s d = Some (Inr (ancestor (part_at s d)), s)"
    by (simp add: AncestorTrackID_def)
next
  fix s0 mcp_v orig_v mcmp_v
  assume "AddParticles s0 mcp_v orig_v mcmp_v = (Inr (), s) \<and> unat d < length mcp_v"
  then have "ancestor (part_at s d) = kINVALID_UINT"
    using AddParticles_ancestor_unset by blast
  then show "AncestorTrackID s d = Some (Inr r, set_Ancestor s d r)"
    using self zero loop by (rule AncestorTrackID_climb [OF valid])
qed

lemma five_generations_climb:
  assumes "lineage s [pD, pC, pB, pA, pP]" and "primary s pP"
  shows "unat pD < length (parts s) \<and> MotherTrackID s pD \<noteq> track_id (part_at s pD) \<and>
    MotherTrackID s pD \<noteq> 0 \<and>
    ancestor_loop_upto (Suc (length [pB, pA, pP])) s (MotherTrackID s pD)
      (TrackToParticleIndex s (MotherTrackID s pD)) = Some (Inr (track_id (part_at s pP)))"
proof -
  from assms(1) have l: "link s pD pC" and rest: "lineage s [pC, pB, pA, pP]"
    by simp_all
  from l have c: "pC \<noteq> kINVALID_UINT" and i: "TrackToParticleIndex s (track_id (part_at s pC)) = pC"
    and v: "unat pD < length (parts s)"
    and ne: "track_id (part_at s pC) \<noteq> track_id (part_at s pD)" "track_id (part_at s pC) \<noteq> 0"
    by (simp_all add: link_def indexed_def)
  from lineage_climb [OF rest c] assms(2)
  have "ancestor_loop_upto (Suc (length [pB, pA, pP])) s (track_id (part_at s pC)) pC
      = Some (Inr (track_id (part_at s pP)))"
    by (simp del: ancestor_loop_upto.simps)
  with MotherTrackID_link [OF l] i ne v show ?thesis
    by (simp del: ancestor_loop_upto.simps)
qed


text \<open>
  C6, as the claim is written, fails: with four generations ingested from the particle
  batch and the fifth as a dropped-particle record whose ancestor field holds 42, every
  mother id is indexed and the primary is track 1, but the call at the fifth record
  returns the cached 42.
\<close>

theorem cached_descendant_returns_cache:
  "lineage cached5 [4, 3, 2, 1, 0] \<and> primary cached5 0 \<and> track_id (part_at cached5 0) = 1 \<and>
   AncestorTrackID cached5 4 = Some (Inr 42, cached5)"
  by (simp add: AncestorTrackID_def lineage_defs ingested_defs)

text \<open>
  C6, amended. Five generations, primary, A, B, C and D, each record linked to the indexed
  record of its mother and the primary's mother id being 0. When no ancestor is cached at
  D, the call at D's position returns the primary's track id and caches it; this is so in
  particular when \<open>AddParticles\<close> has built D's record from the particle batch. When an
  ancestor is cached at D, the call returns the cached value.
\<close>

theorem five_generations:
  assumes "lineage s [pD, pC, pB, pA, pP]" and "primary s pP"
  shows "(ancestor (part_at s pD) = kINVALID_UINT \<longrightarrow>
           AncestorTrackID s pD =
             Some (Inr (track_id (part_at s pP)), set_Ancestor s pD (track_id (part_at s pP)))) \<and>
         (ancestor (part_at s pD) \<noteq> kINVALID_UINT \<longrightarrow>
           AncestorTrackID s pD = Some (Inr (ancestor (part_at s pD)), s)) \<and>
         (\<forall>s0 mcp_v orig_v mcmp_v.
            AddParticles s0 mcp_v orig_v mcmp_v = (Inr (), s) \<and> unat pD < length mcp_v \<longrightarrow>
              AncestorTrackID s pD =
                Some (Inr (track_id (part_at s pP)), set_Ancestor s pD (track_id (part_at s pP))))"
proof -
  note c = five_generations_climb [OF assms]
  show ?thesis
    by (rule AncestorTrackID_by_cache [OF c [THEN conjunct1] c [THEN conjunct2, THEN conjunct1]
          c [THEN conjunct2, THEN conjunct2, THEN conjunct1]
          c [THEN conjunct2, THEN conjunct2, THEN conjunct2]])
qed

theorem five_generations_witness:
  "lineage ingested5 [4, 3, 2, 1, 0] \<and> primary ingested5 0 \<and>
   ancestor (part_at ingested5 4) = kINVALID_UINT \<and>
   AncestorTrackID ingested5 4 = Some (Inr 1, set_Ancestor ingested5 4 1)"
proof -
  have l: "lineage ingested5 [4, 3, 2, 1, 0]"
    by (simp add: lineage_defs ingested_defs)
  have p: "primary ingested5 0"
    by (simp add: lineage_defs ingested_defs)
  have u: "ancestor (part_at ingested5 4) = kINVALID_UINT"
    by (simp add: part_at_def ingested5_parts batch4_def)
  have "track_id (part_at ingested5 0) = 1"
    by (simp add: lineage_defs ingested_defs)
  with five_generations [OF l p] l p u show ?thesis
    by simp
qed




end
